theory Spec2Isabelle
  imports Main "HOL-Library.AList" "HOL-Library.Char_ord" "HOL-Library.List_Lexorder"
begin

section \<open>corehsm: a hierarchical state machine for command-line programs\<close>

text \<open>
  The Go package \<^verbatim>\<open>corehsm\<close> is embedded function by function. Conventions:
  \<^item> A \<^verbatim>\<open>*State\<close> is a \<open>State option\<close>: \<open>None\<close> is the nil pointer, which the package
    itself uses as a value (the parent of a root, an empty \<^verbatim>\<open>Result.NextState\<close>).
    States are built by \<^verbatim>\<open>NewState\<close> only and their fields are never written again, so a
    parent chain is finite and acyclic, as a datatype value is. The package never compares
    two state pointers with each other (only with nil), so a state is represented by its
    content.
  \<^item> The other pointers (the registry, the machine, the command, the snapshot) are
    references to the one object they denote; mutation through them is state passing.
  \<^item> A nil dereference is the outcome \<open>Panics\<close>.
  \<^item> A Go map that is only looked up is a HOL map. The inner command table of a state is
    also iterated (\<^verbatim>\<open>range\<close>), so it is an association list with distinct keys; the order of
    the list stands for the order in which \<^verbatim>\<open>range\<close> happens to visit the entries.
  \<^item> Go compares strings bytewise and lexicographically, which is the order of
    \<open>string\<close> given by \<open>Char_ord\<close> and \<open>List_Lexorder\<close>.
\<close>

subsection \<open>Data model\<close>

datatype State = State (name: string) (parent: "State option")

definition NewState :: "string \<Rightarrow> State option \<Rightarrow> State option" where
  "NewState n p = Some (State n p)"

record Command =
  name_c :: string
  args_c :: "string list"

definition NewCommand :: "string \<Rightarrow> string list \<Rightarrow> Command" where
  "NewCommand n as = \<lparr>name_c = n, args_c = as\<rparr>"

record CommandDef =
  Name :: string
  Args :: string
  Description :: string

record Result =
  Output :: string
  NextState :: "State option"

text \<open>
  An \<^verbatim>\<open>error\<close> is either made by the package with \<^verbatim>\<open>fmt.Errorf\<close> (only its message
  matters) or an opaque value \<open>'e\<close> of a handler.
\<close>

datatype 'e error = Errorf string | Domain 'e

datatype 'a outcome = Panics | Returns 'a

record 'd Snapshot =
  CurrentStateName :: string
  Data_s :: 'd

text \<open>
  The machine. Its \<^verbatim>\<open>registry\<close> field is set at construction and never written again; it
  is passed to \<open>Execute\<close> as an argument instead of being stored, because a handler takes
  the machine and the registry stores handlers (HOL has no such recursive type).
\<close>

record 'd Machine =
  CurrentState :: "State option"
  StateStack :: "State list"
  Data :: 'd

text \<open>
  A handler receives \<^verbatim>\<open>m *Machine[T]\<close> and may write any exported field of it before it
  returns: it is a function from the machine before to the result, the error and the
  machine after. The context argument is only passed through and is left out. A handler
  is taken to return: a nil function value, or a handler that panics or runs forever, is
  outside the model. A handler can reach the registry through \<^verbatim>\<open>m.Registry()\<close>;
  \<open>Execute\<close> does not read the registry again once the handler is resolved, so what a
  handler does to the registry is not part of the outcome of \<open>Execute\<close>.
\<close>

type_synonym ('d, 'e) CommandHandlerFunc =
  "'d Machine \<Rightarrow> Command \<Rightarrow> Result \<times> 'e error option \<times> 'd Machine"

record ('d, 'e) RegisteredCommand =
  Def :: CommandDef
  Handler :: "('d, 'e) CommandHandlerFunc"

record ('d, 'e) Registry =
  states :: "string \<rightharpoonup> State"
  commandHandlers :: "string \<rightharpoonup> (string \<times> ('d, 'e) RegisteredCommand) list"

subsection \<open>Registry\<close>

definition NewRegistry :: "('d, 'e) Registry" where
  "NewRegistry = \<lparr>states = Map.empty, commandHandlers = Map.empty\<rparr>"

fun RegisterState :: "('d, 'e) Registry \<Rightarrow> State option \<Rightarrow> ('d, 'e) Registry" where
  "RegisterState r None = r"
| "RegisterState r (Some (State n p)) =
     (if states r n \<noteq> None then r
      else RegisterState (r\<lparr>states := (states r)(n \<mapsto> State n p)\<rparr>) p)"

definition RegisterCommand ::
  "('d, 'e) Registry \<Rightarrow> State option \<Rightarrow> CommandDef \<Rightarrow> ('d, 'e) CommandHandlerFunc
     \<Rightarrow> ('d, 'e) Registry outcome" where
  "RegisterCommand r state def handler =
     (case state of
        None \<Rightarrow> Panics
      | Some s \<Rightarrow>
          let stateName = name s;
              r1 = (if commandHandlers r stateName = None
                    then r\<lparr>commandHandlers := (commandHandlers r)(stateName \<mapsto> [])\<rparr>
                    else r)
          in Returns (r1\<lparr>commandHandlers := (commandHandlers r1)(stateName \<mapsto>
                 AList.update (Name def) \<lparr>Def = def, Handler = handler\<rparr>
                   (the (commandHandlers r1 stateName)))\<rparr>))"

definition GetStateByName :: "('d, 'e) Registry \<Rightarrow> string \<Rightarrow> State option" where
  "GetStateByName r n = states r n"

fun findCommandHandler ::
  "('d, 'e) Registry \<Rightarrow> State option \<Rightarrow> string \<Rightarrow> ('d, 'e) CommandHandlerFunc option" where
  "findCommandHandler r None cmdName = None"
| "findCommandHandler r (Some (State n p)) cmdName =
     (case commandHandlers r n of
        None \<Rightarrow> findCommandHandler r p cmdName
      | Some stateHandlers \<Rightarrow>
          (case map_of stateHandlers cmdName of
             None \<Rightarrow> findCommandHandler r p cmdName
           | Some cmd \<Rightarrow> Some (Handler cmd)))"

text \<open>
  The body of the \<^verbatim>\<open>range\<close> loop of \<^verbatim>\<open>FindAvailableCommands\<close>, on the pair of the
  \<^verbatim>\<open>seen\<close> set and the \<^verbatim>\<open>commands\<close> slice.
\<close>

fun collectStep ::
  "string \<times> ('d, 'e) RegisteredCommand \<Rightarrow> string set \<times> CommandDef list
     \<Rightarrow> string set \<times> CommandDef list" where
  "collectStep (cmdName, regCmd) (seen, commands) =
     (if cmdName \<notin> seen then (insert cmdName seen, commands @ [Def regCmd])
      else (seen, commands))"

fun collectCommands ::
  "('d, 'e) Registry \<Rightarrow> State option \<Rightarrow> string set \<times> CommandDef list
     \<Rightarrow> string set \<times> CommandDef list" where
  "collectCommands r None acc = acc"
| "collectCommands r (Some (State n p)) acc =
     collectCommands r p
       (case commandHandlers r n of
          None \<Rightarrow> acc
        | Some stateHandlers \<Rightarrow> fold collectStep stateHandlers acc)"

text \<open>
  \<^verbatim>\<open>sort.Slice\<close> is the standard library's; it returns a permutation of the slice that is
  ordered by the given \<^verbatim>\<open>less\<close>, here \<open>sort_key Name\<close>.
\<close>

definition FindAvailableCommands :: "('d, 'e) Registry \<Rightarrow> State option \<Rightarrow> CommandDef list" where
  "FindAvailableCommands r state = sort_key Name (snd (collectCommands r state ({}, [])))"

subsection \<open>The path from the root\<close>

fun appendPath :: "State option \<Rightarrow> State list \<Rightarrow> State list" where
  "appendPath None path = path"
| "appendPath (Some (State n p)) path = appendPath p (path @ [State n p])"

text \<open>
  The in-place reversal \<^verbatim>\<open>for i, j := 0, len(path)-1; i < j; i, j = i+1, j-1\<close>. On the
  empty path Go starts with \<open>j = -1\<close> and the model with \<open>j = 0\<close>; the loop does not run
  in either.
\<close>

function reversePath :: "nat \<Rightarrow> nat \<Rightarrow> State list \<Rightarrow> State list" where
  "reversePath i j path =
     (if i < j then reversePath (i + 1) (j - 1) (path[i := path ! j, j := path ! i])
      else path)"
  by pat_completeness auto
termination
  by (relation "measure (\<lambda>(i, j, path). j - i)") auto

declare reversePath.simps [simp del]

definition buildStatePath :: "State option \<Rightarrow> State list" where
  "buildStatePath targetState =
     (let path = appendPath targetState [] in reversePath 0 (length path - 1) path)"

subsection \<open>Machine\<close>

definition TransitionTo :: "'d Machine \<Rightarrow> State option \<Rightarrow> 'd Machine" where
  "TransitionTo m newState = m\<lparr>StateStack := buildStatePath newState, CurrentState := newState\<rparr>"

definition NewMachine ::
  "('d, 'e) Registry \<Rightarrow> State option \<Rightarrow> 'd \<Rightarrow> 'e error + 'd Machine" where
  "NewMachine registry initialState initialData =
     Inr (TransitionTo \<lparr>CurrentState = None, StateStack = [], Data = initialData\<rparr> initialState)"

definition NewMachineFromSnapshot ::
  "('d, 'e) Registry \<Rightarrow> 'd Snapshot \<Rightarrow> 'e error + 'd Machine" where
  "NewMachineFromSnapshot registry snapshot =
     (case GetStateByName registry (CurrentStateName snapshot) of
        None \<Rightarrow> Inl (Errorf (''state '' @ [CHR 0x27] @ CurrentStateName snapshot @ [CHR 0x27]
                              @ '' not found in registry''))
      | Some initialState \<Rightarrow>
          Inr \<lparr>CurrentState = Some initialState,
               StateStack = buildStatePath (Some initialState),
               Data = Data_s snapshot\<rparr>)"

text \<open>
  \<open>Execute\<close> returns the output text, the error and the machine as it is afterwards.
  \<^verbatim>\<open>m.CurrentState.Name()\<close> is a nil dereference when the machine has no current state.
\<close>

definition Execute ::
  "('d, 'e) Registry \<Rightarrow> 'd Machine \<Rightarrow> Command
     \<Rightarrow> (string \<times> 'e error option \<times> 'd Machine) outcome" where
  "Execute registry m cmd =
     (case findCommandHandler registry (CurrentState m) (name_c cmd) of
        None \<Rightarrow>
          (case CurrentState m of
             None \<Rightarrow> Panics
           | Some cur \<Rightarrow>
               Returns ('''',
                 Some (Errorf (''command '' @ [CHR 0x27] @ name_c cmd @ [CHR 0x27]
                               @ '' not available in state '' @ [CHR 0x27] @ name cur
                               @ [CHR 0x27])),
                 m))
      | Some handler \<Rightarrow>
          (case handler m cmd of
             (result, Some err, m1) \<Rightarrow> Returns (Output result, Some err, m1)
           | (result, None, m1) \<Rightarrow>
               (case NextState result of
                  None \<Rightarrow> Returns (Output result, None, m1)
                | Some next \<Rightarrow>
                    (case CurrentState m1 of
                       None \<Rightarrow> Panics
                     | Some cur \<Rightarrow>
                         if name next \<noteq> name cur
                         then Returns (Output result, None, TransitionTo m1 (NextState result))
                         else Returns (Output result, None, m1)))))"

definition GetSnapshot :: "'d Machine \<Rightarrow> 'd Snapshot outcome" where
  "GetSnapshot m =
     (case CurrentState m of
        None \<Rightarrow> Panics
      | Some cur \<Rightarrow> Returns \<lparr>CurrentStateName = name cur, Data_s = Data m\<rparr>)"

subsection \<open>Notions of the specification\<close>

text \<open>
  The parent chain of a state pointer, from the state itself up to its root: the sequence
  of values that \<^verbatim>\<open>for s := state; s != nil; s = s.Parent()\<close> visits.
\<close>

fun chain :: "State option \<Rightarrow> State list" where
  "chain None = []"
| "chain (Some (State n p)) = State n p # chain p"

text \<open>
  The binding of a command name at one state: the entry of the command table under the
  state's name, \<^verbatim>\<open>r.commandHandlers[s.Name()][cmdName]\<close>.
\<close>

definition binding ::
  "('d, 'e) Registry \<Rightarrow> State \<Rightarrow> string \<Rightarrow> ('d, 'e) RegisteredCommand option" where
  "binding r s cmdName =
     (case commandHandlers r (name s) of None \<Rightarrow> None | Some hs \<Rightarrow> map_of hs cmdName)"

text \<open>
  Specification side: the binding of the first state of a list that has one (the closest
  state, when the list is a parent chain).
\<close>

fun firstBinding ::
  "('d, 'e) Registry \<Rightarrow> State list \<Rightarrow> string \<Rightarrow> ('d, 'e) RegisteredCommand option" where
  "firstBinding r [] cmdName = None"
| "firstBinding r (s # ss) cmdName =
     (case binding r s cmdName of None \<Rightarrow> firstBinding r ss cmdName | Some rc \<Rightarrow> Some rc)"

text \<open>
  Specification side: a path from a root down to \<open>s\<close>. It starts at a state without
  parent, ends at \<open>s\<close>, and every state is the parent of the next.
\<close>

fun linked :: "State list \<Rightarrow> bool" where
  "linked [] = True"
| "linked [x] = True"
| "linked (x # y # ys) = (parent y = Some x \<and> linked (y # ys))"

definition rootPath :: "State list \<Rightarrow> State \<Rightarrow> bool" where
  "rootPath path s = (path \<noteq> [] \<and> parent (hd path) = None \<and> last path = s \<and> linked path)"

text \<open>
  The fields of a registry are unexported: every registry of a program is made by
  \<open>NewRegistry\<close> and changed by \<open>RegisterState\<close> and \<open>RegisterCommand\<close> only.
\<close>

inductive built :: "('d, 'e) Registry \<Rightarrow> bool" where
  built_New: "built NewRegistry"
| built_State: "built r \<Longrightarrow> built (RegisterState r st)"
| built_Command: "built r \<Longrightarrow> RegisterCommand r st def h = Returns r' \<Longrightarrow> built r'"

text \<open>
  The registries made by the package when every state passed to \<open>RegisterState\<close> has
  its parent chain inside a set \<open>U\<close> of states.
\<close>

inductive builtFrom :: "State set \<Rightarrow> ('d, 'e) Registry \<Rightarrow> bool" for U :: "State set" where
  builtFrom_New: "builtFrom U NewRegistry"
| builtFrom_State: "builtFrom U r \<Longrightarrow> set (chain st) \<subseteq> U \<Longrightarrow> builtFrom U (RegisterState r st)"
| builtFrom_Command:
    "builtFrom U r \<Longrightarrow> RegisterCommand r st def h = Returns r' \<Longrightarrow> builtFrom U r'"

text \<open>
  Specification side: the state set is keyed by name and closed under ancestors, each
  ancestor being stored under its own name.
\<close>

definition closed :: "('d, 'e) Registry \<Rightarrow> bool" where
  "closed r = (\<forall>k s. states r k = Some s \<longrightarrow>
     name s = k \<and> (\<forall>a \<in> set (chain (Some s)). states r (name a) = Some a))"

subsection \<open>A small program\<close>

text \<open>
  The two states of the README's counter program, with a natural number as data, and a
  few handlers; the concrete instances below are computed on them.
\<close>

definition RootState :: State where
  "RootState = State ''Root'' None"

definition ReadyState :: State where
  "ReadyState = State ''Ready'' (Some RootState)"

definition hello :: "(nat, unit) CommandHandlerFunc" where
  "hello m cmd = (\<lparr>Output = ''hello'', NextState = None\<rparr>, None, m)"

definition increment :: "(nat, unit) CommandHandlerFunc" where
  "increment m cmd =
     (\<lparr>Output = ''incremented'', NextState = None\<rparr>, None, m\<lparr>Data := Data m + 1\<rparr>)"

definition leave :: "(nat, unit) CommandHandlerFunc" where
  "leave m cmd = (\<lparr>Output = ''left'', NextState = Some RootState\<rparr>, None, m)"

definition stay :: "(nat, unit) CommandHandlerFunc" where
  "stay m cmd = (\<lparr>Output = ''stayed'', NextState = Some (State ''Ready'' None)\<rparr>, None, m)"

definition break :: "(nat, unit) CommandHandlerFunc" where
  "break m cmd =
     (\<lparr>Output = ''half done'', NextState = Some RootState\<rparr>, Some (Domain ()),
      m\<lparr>Data := Data m + 1\<rparr>)"

definition helloDef :: CommandDef where
  "helloDef = \<lparr>Name = ''hello'', Args = '''', Description = ''greets''\<rparr>"

definition counterRegistry :: "(nat, unit) Registry" where
  "counterRegistry =
     \<lparr>states = [''Ready'' \<mapsto> ReadyState, ''Root'' \<mapsto> RootState],
      commandHandlers =
        [''Root'' \<mapsto> [(''hello'', \<lparr>Def = helloDef, Handler = hello\<rparr>),
                       (''break'', \<lparr>Def = \<lparr>Name = ''break'', Args = '''', Description = ''''\<rparr>,
                                    Handler = break\<rparr>)],
         ''Ready'' \<mapsto> [(''inc'', \<lparr>Def = \<lparr>Name = ''inc'', Args = '''', Description = ''''\<rparr>,
                                   Handler = increment\<rparr>),
                        (''hello'', \<lparr>Def = \<lparr>Name = ''hello'', Args = ''<who>'',
                                            Description = ''greets someone''\<rparr>,
                                     Handler = increment\<rparr>),
                        (''leave'', \<lparr>Def = \<lparr>Name = ''leave'', Args = '''', Description = ''''\<rparr>,
                                     Handler = leave\<rparr>),
                        (''stay'', \<lparr>Def = \<lparr>Name = ''stay'', Args = '''', Description = ''''\<rparr>,
                                    Handler = stay\<rparr>)]]\<rparr>"

definition readyMachine :: "nat Machine" where
  "readyMachine = \<lparr>CurrentState = Some ReadyState, StateStack = [RootState, ReadyState], Data = 0\<rparr>"

text \<open>The set-up of a program: a sequence of \<^verbatim>\<open>RegisterCommand\<close> calls.\<close>

fun registerAll ::
  "('d, 'e) Registry \<Rightarrow> (State \<times> CommandDef \<times> ('d, 'e) CommandHandlerFunc) list
     \<Rightarrow> ('d, 'e) Registry outcome" where
  "registerAll r [] = Returns r"
| "registerAll r ((s, def, h) # rest) =
     (case RegisterCommand r (Some s) def h of
        Panics \<Rightarrow> Panics
      | Returns r' \<Rightarrow> registerAll r' rest)"

text \<open>
  Two handlers that write the state fields of the machine themselves: \<open>vanish\<close> clears
  the current state and asks for a next state, \<open>jump\<close> calls \<^verbatim>\<open>m.TransitionTo\<close> and asks
  for none.
\<close>

definition vanish :: "(nat, unit) CommandHandlerFunc" where
  "vanish m cmd =
     (\<lparr>Output = ''gone'', NextState = Some RootState\<rparr>, None, m\<lparr>CurrentState := None\<rparr>)"

definition jump :: "(nat, unit) CommandHandlerFunc" where
  "jump m cmd =
     (\<lparr>Output = ''jumped'', NextState = None\<rparr>, None, TransitionTo m (Some RootState))"

definition jumpRegistry :: "(nat, unit) Registry" where
  "jumpRegistry =
     \<lparr>states = Map.empty,
      commandHandlers =
        [''Ready'' \<mapsto> [(''vanish'', \<lparr>Def = \<lparr>Name = ''vanish'', Args = '''', Description = ''''\<rparr>,
                                      Handler = vanish\<rparr>),
                        (''jump'', \<lparr>Def = \<lparr>Name = ''jump'', Args = '''', Description = ''''\<rparr>,
                                    Handler = jump\<rparr>)]]\<rparr>"

subsection \<open>Auxiliary functions of the proofs\<close>

text \<open>
  For the proofs about \<open>FindAvailableCommands\<close>: the entries of the command tables along
  a parent chain, in the order the two loops visit them, and the entries of a list whose
  key is not yet seen when the loop reaches them.
\<close>

definition entries ::
  "('d, 'e) Registry \<Rightarrow> State option \<Rightarrow> (string \<times> ('d, 'e) RegisteredCommand) list" where
  "entries r st =
     concat (map (\<lambda>s. case commandHandlers r (name s) of None \<Rightarrow> [] | Some hs \<Rightarrow> hs) (chain st))"

fun firsts :: "string set \<Rightarrow> (string \<times> 'v) list \<Rightarrow> (string \<times> 'v) list" where
  "firsts seen [] = []"
| "firsts seen ((k, v) # es) =
     (if k \<in> seen then firsts seen es else (k, v) # firsts (insert k seen) es)"

section \<open>Properties\<close>

subsection \<open>The path from the root\<close>

lemma chain_Some: "chain (Some s) = s # chain (parent s)"
  by (cases s) simp

lemma appendPath_chain: "appendPath st path = path @ chain st"
  by (induction st path rule: appendPath.induct) simp_all

lemma length_reversePath: "length (reversePath i j path) = length path"
proof (induction i j path rule: reversePath.induct)
  case (1 i j path)
  show ?case
  proof (cases "i < j")
    case True
    with 1 show ?thesis by (subst reversePath.simps) simp
  next
    case False
    then show ?thesis by (subst reversePath.simps) simp
  qed
qed

lemma nth_reversePath:
  "j < length path \<Longrightarrow> k < length path \<Longrightarrow>
   reversePath i j path ! k = (if i \<le> k \<and> k \<le> j then path ! (i + j - k) else path ! k)"
proof (induction i j path arbitrary: k rule: reversePath.induct)
  case (1 i j path)
  show ?case
  proof (cases "i < j")
    case False
    then have eq: "reversePath i j path = path" by (subst reversePath.simps) simp
    from False have "i \<le> k \<and> k \<le> j \<Longrightarrow> i + j - k = k" by arith
    then show ?thesis unfolding eq by auto
  next
    case True
    let ?p = "path[i := path ! j, j := path ! i]"
    have eq: "reversePath i j path = reversePath (i + 1) (j - 1) ?p"
      using True by (subst reversePath.simps) simp
    have len: "length ?p = length path" by simp
    have IH: "reversePath (i + 1) (j - 1) ?p ! k =
        (if i + 1 \<le> k \<and> k \<le> j - 1 then ?p ! (i + 1 + (j - 1) - k) else ?p ! k)"
      using "1.IH"[OF True, of k] "1.prems" by simp
    have pk: "?p ! k = (if k = j then path ! i else if k = i then path ! j else path ! k)"
      using "1.prems" True by (simp add: nth_list_update)
    show ?thesis
    proof (cases "i + 1 \<le> k \<and> k \<le> j - 1")
      case mid: True
      then have a: "i + 1 + (j - 1) - k = i + j - k" by arith
      from mid have b: "i + j - k \<noteq> i" "i + j - k \<noteq> j" "i + j - k < length path"
        using "1.prems" by arith+
      from mid have c: "i \<le> k \<and> k \<le> j" by arith
      have "reversePath i j path ! k = ?p ! (i + j - k)"
        unfolding eq IH using mid a by simp
      also have "\<dots> = path ! (i + j - k)"
        using b by (simp add: nth_list_update)
      finally show ?thesis using c by simp
    next
      case out: False
      have r: "reversePath i j path ! k = ?p ! k"
        unfolding eq IH using out by (simp only: if_False)
      show ?thesis
      proof (cases "k = i \<or> k = j")
        case True
        then show ?thesis unfolding r pk using \<open>i < j\<close> by auto
      next
        case False
        with out have "\<not> (i \<le> k \<and> k \<le> j)" by arith
        with False show ?thesis unfolding r pk by auto
      qed
    qed
  qed
qed

lemma reversePath_rev: "reversePath 0 (length path - 1) path = rev path"
proof (cases "path = []")
  case True
  then show ?thesis by (subst reversePath.simps) simp
next
  case False
  then have j: "length path - 1 < length path" by simp
  show ?thesis
  proof (rule nth_equalityI)
    show "length (reversePath 0 (length path - 1) path) = length (rev path)"
      by (simp add: length_reversePath)
  next
    fix k assume "k < length (reversePath 0 (length path - 1) path)"
    then have k: "k < length path" by (simp add: length_reversePath)
    then have a: "0 + (length path - 1) - k = length path - Suc k" and b: "0 \<le> k \<and> k \<le> length path - 1"
      by arith+
    have "reversePath 0 (length path - 1) path ! k = path ! (length path - Suc k)"
      unfolding nth_reversePath[OF j k, of 0] using a b by simp
    with k show "reversePath 0 (length path - 1) path ! k = rev path ! k"
      by (simp add: rev_nth)
  qed
qed

lemma buildStatePath_rev: "buildStatePath st = rev (chain st)"
  unfolding buildStatePath_def Let_def appendPath_chain by (simp only: reversePath_rev append_Nil)

lemma linked_snoc: "linked (xs @ [y]) = (linked xs \<and> (xs = [] \<or> parent y = Some (last xs)))"
  by (induction xs rule: linked.induct) auto

lemma chain_root: "chain (Some s) \<noteq> [] \<and> parent (last (chain (Some s))) = None"
proof (induction s)
  case (State n p)
  show ?case
  proof (cases p)
    case None
    then show ?thesis by simp
  next
    case (Some q)
    with State have "chain (Some q) \<noteq> [] \<and> parent (last (chain (Some q))) = None"
      by simp
    with Some show ?thesis by simp
  qed
qed

lemma rootPath_chain: "rootPath (rev (chain (Some s))) s"
proof (induction s)
  case (State n p)
  show ?case
  proof (cases p)
    case None
    then show ?thesis by (simp add: rootPath_def)
  next
    case (Some q)
    with State have IH: "rootPath (rev (chain (Some q))) q" by simp
    have "chain (Some (State n p)) = State n p # chain (Some q)"
      using Some by simp
    then have r: "rev (chain (Some (State n p))) = rev (chain (Some q)) @ [State n p]"
      by simp
    from IH have a: "rev (chain (Some q)) \<noteq> []" "parent (hd (rev (chain (Some q)))) = None"
      "last (rev (chain (Some q))) = q" "linked (rev (chain (Some q)))"
      by (simp_all add: rootPath_def)
    show ?thesis
      unfolding r rootPath_def using a Some by (simp add: linked_snoc)
  qed
qed

subsection \<open>Restoring a machine from a snapshot\<close>

text \<open>
  Claim C5. \<open>NewMachineFromSnapshot\<close> fails exactly when the snapshot's state name is not
  a key of the registry's state set, and then with the error whose message is
  \<^verbatim>\<open>state '<name>' not found in registry\<close> (the package has no error types: the spec's
  StateNotFoundError is this message). When the name is a key, it returns a machine whose
  data is the snapshot's, whose current state is the state stored under that name, and
  whose state stack is the reversed parent chain of that state, which is a path from the
  root down to it.
\<close>

theorem NewMachineFromSnapshot_restores:
  "((\<exists>e. NewMachineFromSnapshot r snap = Inl e) \<longleftrightarrow> states r (CurrentStateName snap) = None) \<and>
   (states r (CurrentStateName snap) = None \<longrightarrow>
      NewMachineFromSnapshot r snap =
        Inl (Errorf (''state '' @ [CHR 0x27] @ CurrentStateName snap @ [CHR 0x27]
                     @ '' not found in registry''))) \<and>
   (\<forall>s. states r (CurrentStateName snap) = Some s \<longrightarrow>
      NewMachineFromSnapshot r snap =
        Inr \<lparr>CurrentState = Some s, StateStack = rev (chain (Some s)), Data = Data_s snap\<rparr> \<and>
      rootPath (rev (chain (Some s))) s)"
  by (cases "states r (CurrentStateName snap)")
     (simp_all add: NewMachineFromSnapshot_def GetStateByName_def buildStatePath_rev rootPath_chain)

theorem NewMachineFromSnapshot_restores_witness:
  "NewMachineFromSnapshot
     (RegisterState (NewRegistry :: (nat, unit) Registry)
        (Some (State ''Ready'' (Some (State ''Root'' None)))))
     \<lparr>CurrentStateName = ''Ready'', Data_s = (7::nat)\<rparr> =
   Inr \<lparr>CurrentState = Some (State ''Ready'' (Some (State ''Root'' None))),
        StateStack = [State ''Root'' None, State ''Ready'' (Some (State ''Root'' None))],
        Data = 7\<rparr> \<and>
   rootPath [State ''Root'' None, State ''Ready'' (Some (State ''Root'' None))]
     (State ''Ready'' (Some (State ''Root'' None))) \<and>
   NewMachineFromSnapshot
     (RegisterState (NewRegistry :: (nat, unit) Registry)
        (Some (State ''Ready'' (Some (State ''Root'' None)))))
     \<lparr>CurrentStateName = ''Gone'', Data_s = (7::nat)\<rparr> =
   Inl (Errorf (''state '' @ [CHR 0x27] @ ''Gone'' @ [CHR 0x27] @ '' not found in registry''))"
  using NewMachineFromSnapshot_restores
          [of "RegisterState (NewRegistry :: (nat, unit) Registry)
                 (Some (State ''Ready'' (Some (State ''Root'' None))))"
              "\<lparr>CurrentStateName = ''Ready'', Data_s = (7::nat)\<rparr>"]
        NewMachineFromSnapshot_restores
          [of "RegisterState (NewRegistry :: (nat, unit) Registry)
                 (Some (State ''Ready'' (Some (State ''Root'' None))))"
              "\<lparr>CurrentStateName = ''Gone'', Data_s = (7::nat)\<rparr>"]
  by (simp add: NewRegistry_def)

subsection \<open>Command lookup\<close>

lemma findCommandHandler_firstBinding:
  "findCommandHandler r st c = map_option Handler (firstBinding r (chain st) c)"
  by (induction r st c rule: findCommandHandler.induct)
     (simp_all add: binding_def split: option.splits)

lemma firstBinding_None: "firstBinding r ss c = None \<longleftrightarrow> (\<forall>s \<in> set ss. binding r s c = None)"
  by (induction ss) (auto split: option.splits)

lemma firstBinding_prefix:
  "ss = pre @ s # post \<Longrightarrow> \<forall>t \<in> set pre. binding r t c = None \<Longrightarrow> binding r s c = Some rc
   \<Longrightarrow> firstBinding r ss c = Some rc"
  by (induction pre arbitrary: ss) auto

lemma firstBinding_Some:
  "firstBinding r ss c = Some rc \<Longrightarrow>
   \<exists>pre s post. ss = pre @ s # post \<and> (\<forall>t \<in> set pre. binding r t c = None) \<and> binding r s c = Some rc"
proof (induction ss)
  case Nil
  then show ?case by simp
next
  case (Cons a ss)
  show ?case
  proof (cases "binding r a c")
    case None
    with Cons obtain pre s post where
      "ss = pre @ s # post" "\<forall>t \<in> set pre. binding r t c = None" "binding r s c = Some rc"
      by auto
    with None have "a # ss = (a # pre) @ s # post \<and> (\<forall>t \<in> set (a # pre). binding r t c = None)
        \<and> binding r s c = Some rc"
      by simp
    then show ?thesis by blast
  next
    case (Some x)
    with Cons.prems have "a # ss = [] @ a # ss \<and> (\<forall>t \<in> set []. binding r t c = None)
        \<and> binding r a c = Some rc"
      by simp
    then show ?thesis by blast
  qed
qed

text \<open>
  Claim C1. \<open>findCommandHandler\<close> walks the parent chain from the state itself and
  returns the handler of the first state of the chain that has a binding for the name
  (bindings are looked up under the state's name). So it finds nothing exactly when no
  state of the chain has a binding, a binding at a state hides the bindings of the states
  after it in the chain, and a binding at the start state itself is the one returned.
\<close>

theorem findCommandHandler_closest:
  "findCommandHandler r st c = map_option Handler (firstBinding r (chain st) c) \<and>
   (findCommandHandler r st c = None \<longleftrightarrow> (\<forall>s \<in> set (chain st). binding r s c = None)) \<and>
   (\<forall>pre s post rc.
      chain st = pre @ s # post \<and> (\<forall>t \<in> set pre. binding r t c = None) \<and>
      binding r s c = Some rc \<longrightarrow>
      findCommandHandler r st c = Some (Handler rc)) \<and>
   (\<forall>s rc. binding r s c = Some rc \<longrightarrow> findCommandHandler r (Some s) c = Some (Handler rc))"
proof (intro conjI allI impI)
  show "findCommandHandler r st c = map_option Handler (firstBinding r (chain st) c)"
    by (rule findCommandHandler_firstBinding)
  show "findCommandHandler r st c = None \<longleftrightarrow> (\<forall>s \<in> set (chain st). binding r s c = None)"
    by (simp add: findCommandHandler_firstBinding firstBinding_None)
next
  fix pre s post rc
  assume "chain st = pre @ s # post \<and> (\<forall>t \<in> set pre. binding r t c = None) \<and>
      binding r s c = Some rc"
  then have "firstBinding r (chain st) c = Some rc"
    using firstBinding_prefix by blast
  then show "findCommandHandler r st c = Some (Handler rc)"
    by (simp add: findCommandHandler_firstBinding)
next
  fix s rc
  assume "binding r s c = Some rc"
  then show "findCommandHandler r (Some s) c = Some (Handler rc)"
    by (simp add: findCommandHandler_firstBinding chain_Some)
qed

theorem findCommandHandler_closest_witness:
  "findCommandHandler counterRegistry (Some ReadyState) ''hello'' = Some increment \<and>
   findCommandHandler counterRegistry (Some RootState) ''hello'' = Some hello \<and>
   findCommandHandler counterRegistry (Some ReadyState) ''break'' = Some break \<and>
   findCommandHandler counterRegistry (Some ReadyState) ''quit'' = None"
  using findCommandHandler_closest [of counterRegistry "Some ReadyState" "''hello''"]
        findCommandHandler_closest [of counterRegistry "Some RootState" "''hello''"]
        findCommandHandler_closest [of counterRegistry "Some ReadyState" "''break''"]
        findCommandHandler_closest [of counterRegistry "Some ReadyState" "''quit''"]
  by (simp add: counterRegistry_def ReadyState_def RootState_def binding_def)

subsection \<open>Executing a command\<close>

lemma TransitionTo_eq:
  "TransitionTo m st = m\<lparr>StateStack := rev (chain st), CurrentState := st\<rparr>"
  by (simp add: TransitionTo_def buildStatePath_rev)

text \<open>
  Claim C3, as amended. On a machine that has a current state, when no state of the parent
  chain of the current state has a binding for the command's name, \<open>Execute\<close> returns the
  empty output and the error whose message is
  \<^verbatim>\<open>command '<command>' not available in state '<current state>'\<close> (the spec's
  CommandNotAvailableError), and the machine is the one it was given: current state, state
  stack and data are untouched.
\<close>

theorem Execute_not_available:
  "CurrentState m = Some cur \<Longrightarrow>
   \<forall>s \<in> set (chain (Some cur)). binding r s (name_c cmd) = None \<Longrightarrow>
   Execute r m cmd =
     Returns ('''',
       Some (Errorf (''command '' @ [CHR 0x27] @ name_c cmd @ [CHR 0x27]
                     @ '' not available in state '' @ [CHR 0x27] @ name cur @ [CHR 0x27])),
       m)"
proof -
  assume cur: "CurrentState m = Some cur"
    and none: "\<forall>s \<in> set (chain (Some cur)). binding r s (name_c cmd) = None"
  from none have "firstBinding r (chain (Some cur)) (name_c cmd) = None"
    by (simp only: firstBinding_None)
  then have "findCommandHandler r (CurrentState m) (name_c cmd) = None"
    using cur by (simp only: findCommandHandler_firstBinding option.map)
  then show ?thesis
    using cur by (simp add: Execute_def)
qed

theorem Execute_not_available_witness:
  "Execute counterRegistry readyMachine (NewCommand ''quit'' []) =
     Returns ('''',
       Some (Errorf (''command '' @ [CHR 0x27] @ ''quit'' @ [CHR 0x27]
                     @ '' not available in state '' @ [CHR 0x27] @ ''Ready'' @ [CHR 0x27])),
       readyMachine)"
  using Execute_not_available [of readyMachine ReadyState counterRegistry "NewCommand ''quit'' []"]
  by (simp add: readyMachine_def counterRegistry_def ReadyState_def RootState_def binding_def
        NewCommand_def)

text \<open>
  The claim as it was stated, for every machine, fails on a machine without current state,
  which \<open>NewMachine\<close> builds from a nil initial state: its parent chain is empty, so no
  state of it binds the command, and \<open>Execute\<close> dereferences the nil current state while
  it formats the message.
\<close>

theorem Execute_not_available_counterexample:
  "NewMachine (NewRegistry :: (nat, unit) Registry) None (0::nat) =
     Inr \<lparr>CurrentState = None, StateStack = [], Data = 0\<rparr> \<and>
   chain (CurrentState \<lparr>CurrentState = None, StateStack = [], Data = (0::nat)\<rparr>) = [] \<and>
   Execute (NewRegistry :: (nat, unit) Registry)
     \<lparr>CurrentState = None, StateStack = [], Data = (0::nat)\<rparr> (NewCommand ''quit'' []) = Panics"
  by (simp add: NewMachine_def TransitionTo_eq Execute_def)

text \<open>
  Claim C6. When the handler that \<open>Execute\<close> resolves returns an error, \<open>Execute\<close>
  returns that error together with the handler's output text, and the machine is left as
  the handler left it: what the handler wrote to the data stays, and no transition is made,
  whatever \<open>NextState\<close> the handler's result carries.
\<close>

theorem Execute_handler_error:
  "findCommandHandler r (CurrentState m) (name_c cmd) = Some h \<Longrightarrow>
   h m cmd = (res, Some err, m') \<Longrightarrow>
   Execute r m cmd = Returns (Output res, Some err, m')"
  by (simp add: Execute_def)

theorem Execute_handler_error_witness:
  "NextState (fst (break readyMachine (NewCommand ''break'' []))) = Some RootState \<and>
   Execute counterRegistry readyMachine (NewCommand ''break'' []) =
     Returns (''half done'', Some (Domain ()),
       \<lparr>CurrentState = Some ReadyState, StateStack = [RootState, ReadyState], Data = 1\<rparr>)"
  using Execute_handler_error
          [of counterRegistry readyMachine "NewCommand ''break'' []" break
              "\<lparr>Output = ''half done'', NextState = Some RootState\<rparr>" "Domain ()"
              "readyMachine\<lparr>Data := 1\<rparr>"]
  by (simp add: readyMachine_def counterRegistry_def ReadyState_def RootState_def
        NewCommand_def break_def)

text \<open>
  Claim C2, as amended. When the resolved handler succeeds, \<open>Execute\<close> works on the
  machine as the handler left it and compares names only. With an empty \<open>NextState\<close> the
  machine is returned as the handler left it. With a \<open>NextState\<close> and a current state,
  \<open>Execute\<close> transitions exactly when the two names differ: the state stack becomes the
  path from the root to the new state and the current state becomes the new state; with a
  \<open>NextState\<close> of the same name, whatever its parent, the machine is returned as the
  handler left it. With a \<open>NextState\<close> and no current state, \<open>Execute\<close> dereferences
  nil in the comparison. For a handler that does not write the current state and the state
  stack, both are afterwards what they were before the call whenever no transition is made.
\<close>

theorem Execute_transition:
  "findCommandHandler r (CurrentState m) (name_c cmd) = Some h \<Longrightarrow>
   h m cmd = (res, None, m') \<Longrightarrow>
   (NextState res = None \<longrightarrow> Execute r m cmd = Returns (Output res, None, m')) \<and>
   (\<forall>next cur. NextState res = Some next \<and> CurrentState m' = Some cur \<longrightarrow>
      Execute r m cmd =
        Returns (Output res, None,
          if name next \<noteq> name cur
          then m'\<lparr>StateStack := rev (chain (Some next)), CurrentState := Some next\<rparr>
          else m')) \<and>
   (\<forall>next. NextState res = Some next \<and> CurrentState m' = None \<longrightarrow> Execute r m cmd = Panics) \<and>
   (CurrentState m' = CurrentState m \<and> StateStack m' = StateStack m \<and>
    (\<forall>next. NextState res = Some next \<longrightarrow> Some (name next) = map_option name (CurrentState m)) \<longrightarrow>
      (\<exists>m''. Execute r m cmd = Returns (Output res, None, m'') \<and>
         CurrentState m'' = CurrentState m \<and> StateStack m'' = StateStack m \<and>
         Data m'' = Data m'))"
  by (cases "NextState res"; cases "CurrentState m"; cases "CurrentState m'")
     (auto simp add: Execute_def TransitionTo_eq)

theorem Execute_transition_witness:
  "Execute counterRegistry readyMachine (NewCommand ''leave'' []) =
     Returns (''left'', None,
       \<lparr>CurrentState = Some RootState, StateStack = [RootState], Data = 0\<rparr>) \<and>
   Execute counterRegistry readyMachine (NewCommand ''stay'' []) =
     Returns (''stayed'', None, readyMachine) \<and>
   Execute counterRegistry readyMachine (NewCommand ''inc'' []) =
     Returns (''incremented'', None, readyMachine\<lparr>Data := 1\<rparr>)"
  using Execute_transition
          [of counterRegistry readyMachine "NewCommand ''leave'' []" leave
              "\<lparr>Output = ''left'', NextState = Some RootState\<rparr>" readyMachine]
        Execute_transition
          [of counterRegistry readyMachine "NewCommand ''stay'' []" stay
              "\<lparr>Output = ''stayed'', NextState = Some (State ''Ready'' None)\<rparr>" readyMachine]
        Execute_transition
          [of counterRegistry readyMachine "NewCommand ''inc'' []" increment
              "\<lparr>Output = ''incremented'', NextState = None\<rparr>" "readyMachine\<lparr>Data := 1\<rparr>"]
  by (simp add: readyMachine_def counterRegistry_def ReadyState_def RootState_def
        NewCommand_def leave_def stay_def increment_def)

text \<open>
  The claim as it was stated, for every machine and every command whose handler succeeds,
  fails for handlers that write the state fields of the machine they are given. After
  \<open>vanish\<close> the machine has no current state and the result has a \<open>NextState\<close>:
  \<open>Execute\<close> neither transitions nor returns. After \<open>jump\<close> the result has no
  \<open>NextState\<close>, yet the current state and the state stack are not what they were before
  the call.
\<close>

theorem Execute_transition_counterexample:
  "registerAll (NewRegistry :: (nat, unit) Registry)
     [(ReadyState, \<lparr>Name = ''vanish'', Args = '''', Description = ''''\<rparr>, vanish),
      (ReadyState, \<lparr>Name = ''jump'', Args = '''', Description = ''''\<rparr>, jump)] =
     Returns jumpRegistry \<and>
   findCommandHandler jumpRegistry (CurrentState readyMachine) ''vanish'' = Some vanish \<and>
   vanish readyMachine (NewCommand ''vanish'' []) =
     (\<lparr>Output = ''gone'', NextState = Some RootState\<rparr>, None,
      readyMachine\<lparr>CurrentState := None\<rparr>) \<and>
   Execute jumpRegistry readyMachine (NewCommand ''vanish'' []) = Panics \<and>
   findCommandHandler jumpRegistry (CurrentState readyMachine) ''jump'' = Some jump \<and>
   NextState (fst (jump readyMachine (NewCommand ''jump'' []))) = None \<and>
   CurrentState readyMachine = Some ReadyState \<and>
   Execute jumpRegistry readyMachine (NewCommand ''jump'' []) =
     Returns (''jumped'', None,
       \<lparr>CurrentState = Some RootState, StateStack = [RootState], Data = 0\<rparr>)"
  by (simp add: jumpRegistry_def readyMachine_def ReadyState_def RootState_def NewCommand_def
        NewRegistry_def RegisterCommand_def Let_def Execute_def vanish_def jump_def
        TransitionTo_eq)

subsection \<open>Registries made by the package\<close>

lemma RegisterState_commandHandlers [simp]:
  "commandHandlers (RegisterState r st) = commandHandlers r"
  by (induction r st rule: RegisterState.induct) simp_all

lemma RegisterState_keyed:
  "\<forall>k s. states r k = Some s \<longrightarrow> name s = k \<Longrightarrow>
   \<forall>k s. states (RegisterState r st) k = Some s \<longrightarrow> name s = k"
proof (induction r st rule: RegisterState.induct)
  case (1 r)
  then show ?case by (simp only: RegisterState.simps)
next
  case (2 r n p)
  show ?case
  proof (cases "states r n")
    case (Some t)
    then have "RegisterState r (Some (State n p)) = r" by simp
    with "2.prems" show ?thesis by (simp only:)
  next
    case None
    let ?r' = "r\<lparr>states := (states r)(n \<mapsto> State n p)\<rparr>"
    have "\<forall>k s. states ?r' k = Some s \<longrightarrow> name s = k"
    proof (intro allI impI)
      fix k s assume a: "states ?r' k = Some s"
      show "name s = k"
      proof (cases "k = n")
        case True
        with a have "s = State n p" by simp
        with True show ?thesis by simp
      next
        case False
        with a have "states r k = Some s" by simp
        with "2.prems" show ?thesis by blast
      qed
    qed
    with "2.IH" None have "\<forall>k s. states (RegisterState ?r' p) k = Some s \<longrightarrow> name s = k"
      by blast
    moreover have "RegisterState r (Some (State n p)) = RegisterState ?r' p"
      using None by simp
    ultimately show ?thesis by (simp only:)
  qed
qed

lemma RegisterCommand_Returns:
  "RegisterCommand r (Some a) d h = Returns r' \<Longrightarrow>
   states r' = states r \<and>
   commandHandlers r' = (commandHandlers r)(name a \<mapsto>
     AList.update (Name d) \<lparr>Def = d, Handler = h\<rparr>
       (case commandHandlers r (name a) of None \<Rightarrow> [] | Some hs \<Rightarrow> hs))"
  by (cases "commandHandlers r (name a)") (auto simp add: RegisterCommand_def Let_def)

lemma RegisterCommand_None: "RegisterCommand r None d h = Panics"
  by (simp add: RegisterCommand_def)

lemma RegisterCommand_cases:
  "RegisterCommand r st d h = Returns r' \<Longrightarrow> \<exists>a. st = Some a"
  by (cases st) (simp_all add: RegisterCommand_None)

lemma built_keyed: "built r \<Longrightarrow> states r k = Some s \<Longrightarrow> name s = k"
proof -
  assume "built r"
  then have "\<forall>k s. states r k = Some s \<longrightarrow> name s = k"
  proof (induction rule: built.induct)
    case built_New
    show ?case by (simp add: NewRegistry_def)
  next
    case (built_State r st)
    from built_State.IH show ?case by (rule RegisterState_keyed)
  next
    case (built_Command r st d h r')
    from built_Command.hyps(2) obtain a where "st = Some a"
      using RegisterCommand_cases by blast
    with built_Command.hyps(2) have "states r' = states r"
      using RegisterCommand_Returns by blast
    with built_Command.IH show ?case by (simp only:)
  qed
  then show "states r k = Some s \<Longrightarrow> name s = k" by blast
qed

lemma built_registerAll: "built r \<Longrightarrow> registerAll r bs = Returns r' \<Longrightarrow> built r'"
proof (induction r bs rule: registerAll.induct)
  case (1 r)
  then show ?case by simp
next
  case (2 r s d h rest)
  from "2.prems"(2) obtain r1 where r1: "RegisterCommand r (Some s) d h = Returns r1"
    and rest: "registerAll r1 rest = Returns r'"
    by (auto split: outcome.splits)
  from "2.prems"(1) r1 have "built r1" by (rule built_Command)
  with "2.IH" r1 rest show ?case by simp
qed

lemma counterRegistry_registered:
  "registerAll (RegisterState NewRegistry (Some ReadyState))
     [(RootState, helloDef, hello),
      (RootState, \<lparr>Name = ''break'', Args = '''', Description = ''''\<rparr>, break),
      (ReadyState, \<lparr>Name = ''inc'', Args = '''', Description = ''''\<rparr>, increment),
      (ReadyState, \<lparr>Name = ''hello'', Args = ''<who>'', Description = ''greets someone''\<rparr>,
         increment),
      (ReadyState, \<lparr>Name = ''leave'', Args = '''', Description = ''''\<rparr>, leave),
      (ReadyState, \<lparr>Name = ''stay'', Args = '''', Description = ''''\<rparr>, stay)]
   = Returns counterRegistry"
  by (simp add: counterRegistry_def NewRegistry_def ReadyState_def RootState_def
        RegisterCommand_def helloDef_def Let_def)

lemma built_counterRegistry: "built counterRegistry"
  using built_registerAll [OF built_State [OF built_New] counterRegistry_registered] .

subsection \<open>Construction and snapshots\<close>

text \<open>
  Claim C9, as amended. \<open>NewMachine\<close> succeeds for every registry, every initial state
  (registered or not, nil included) and every data value: the machine has the data, the
  initial state as current state and the path from the root to it as state stack,
  whatever the registry holds. On every machine that has a current state, so also right
  after such a construction from a state that is not nil, \<open>GetSnapshot\<close> returns the name
  of the current state paired with the data; it returns exactly on these machines.
\<close>

theorem NewMachine_GetSnapshot:
  "NewMachine r st d = Inr \<lparr>CurrentState = st, StateStack = rev (chain st), Data = d\<rparr> \<and>
   (\<forall>s. CurrentState m = Some s \<longrightarrow>
      GetSnapshot m = Returns \<lparr>CurrentStateName = name s, Data_s = Data m\<rparr>) \<and>
   ((\<exists>snap. GetSnapshot m = Returns snap) \<longleftrightarrow> CurrentState m \<noteq> None)"
  by (cases "CurrentState m") (simp_all add: NewMachine_def TransitionTo_eq GetSnapshot_def)

theorem NewMachine_GetSnapshot_witness:
  "NewMachine (NewRegistry :: (nat, unit) Registry) (Some ReadyState) (5::nat) =
     Inr \<lparr>CurrentState = Some ReadyState, StateStack = [RootState, ReadyState], Data = 5\<rparr> \<and>
   GetSnapshot \<lparr>CurrentState = Some ReadyState, StateStack = [RootState, ReadyState],
                Data = (5::nat)\<rparr> =
     Returns \<lparr>CurrentStateName = ''Ready'', Data_s = 5\<rparr>"
  using NewMachine_GetSnapshot
          [of "NewRegistry :: (nat, unit) Registry" "Some ReadyState" "5::nat"
              "\<lparr>CurrentState = Some ReadyState, StateStack = [RootState, ReadyState],
                Data = (5::nat)\<rparr>"]
  by (simp add: ReadyState_def RootState_def)

text \<open>
  The claim as it was stated includes the nil initial state: there \<open>NewMachine\<close> succeeds
  but \<open>GetSnapshot\<close> on the machine it returns dereferences the nil current state.
\<close>

theorem NewMachine_GetSnapshot_counterexample:
  "NewMachine (NewRegistry :: (nat, unit) Registry) None (5::nat) =
     Inr \<lparr>CurrentState = None, StateStack = [], Data = 5\<rparr> \<and>
   GetSnapshot \<lparr>CurrentState = None, StateStack = [], Data = (5::nat)\<rparr> = Panics"
  by (simp add: NewMachine_def TransitionTo_eq GetSnapshot_def)

text \<open>
  Claim C4, as amended. For a registry made by the package and a machine whose current
  state has a name that is a key of the registry's state set, \<open>GetSnapshot\<close> returns a
  snapshot from which \<open>NewMachineFromSnapshot\<close> succeeds, and the restored machine has a
  current state of the same name and the same data.
\<close>

theorem snapshot_roundtrip:
  "built r \<Longrightarrow> CurrentState m = Some s \<Longrightarrow> states r (name s) \<noteq> None \<Longrightarrow>
   \<exists>snap m'. GetSnapshot m = Returns snap \<and> NewMachineFromSnapshot r snap = Inr m' \<and>
     map_option name (CurrentState m') = Some (name s) \<and> Data m' = Data m"
proof -
  assume b: "built r" and cur: "CurrentState m = Some s" and reg: "states r (name s) \<noteq> None"
  from reg obtain t where t: "states r (name s) = Some t" by blast
  with b have nt: "name t = name s" by (rule built_keyed)
  have "GetSnapshot m = Returns \<lparr>CurrentStateName = name s, Data_s = Data m\<rparr>"
    using cur by (simp add: GetSnapshot_def)
  moreover have "NewMachineFromSnapshot r \<lparr>CurrentStateName = name s, Data_s = Data m\<rparr> =
      Inr \<lparr>CurrentState = Some t, StateStack = buildStatePath (Some t), Data = Data m\<rparr>"
    using t by (simp add: NewMachineFromSnapshot_def GetStateByName_def)
  ultimately show ?thesis using nt by simp
qed

theorem snapshot_roundtrip_witness:
  "GetSnapshot (readyMachine\<lparr>Data := 3\<rparr>) = Returns \<lparr>CurrentStateName = ''Ready'', Data_s = 3\<rparr> \<and>
   NewMachineFromSnapshot counterRegistry \<lparr>CurrentStateName = ''Ready'', Data_s = 3\<rparr> =
     Inr \<lparr>CurrentState = Some ReadyState, StateStack = [RootState, ReadyState], Data = 3\<rparr>"
  using snapshot_roundtrip [OF built_counterRegistry, of "readyMachine\<lparr>Data := 3\<rparr>" ReadyState]
  by (simp add: readyMachine_def counterRegistry_def ReadyState_def RootState_def
        GetSnapshot_def NewMachineFromSnapshot_def GetStateByName_def buildStatePath_rev)

text \<open>
  The claim as it was stated, for any machine, fails when the machine's current state was
  never registered, which \<open>NewMachine\<close> allows: the snapshot is taken, but restoring it is
  refused because the name is not in the state set.
\<close>

theorem snapshot_roundtrip_counterexample:
  "NewMachine (NewRegistry :: (nat, unit) Registry) (Some RootState) (3::nat) =
     Inr \<lparr>CurrentState = Some RootState, StateStack = [RootState], Data = 3\<rparr> \<and>
   GetSnapshot \<lparr>CurrentState = Some RootState, StateStack = [RootState], Data = (3::nat)\<rparr> =
     Returns \<lparr>CurrentStateName = ''Root'', Data_s = 3\<rparr> \<and>
   NewMachineFromSnapshot (NewRegistry :: (nat, unit) Registry)
     \<lparr>CurrentStateName = ''Root'', Data_s = (3::nat)\<rparr> =
     Inl (Errorf (''state '' @ [CHR 0x27] @ ''Root'' @ [CHR 0x27] @ '' not found in registry''))"
  by (simp add: NewMachine_def TransitionTo_eq GetSnapshot_def NewMachineFromSnapshot_def
        GetStateByName_def NewRegistry_def RootState_def)

subsection \<open>Dispatch does not read the state set\<close>

lemma firstBinding_cong:
  "\<forall>s \<in> set ss. binding r1 s c = binding r2 s c \<Longrightarrow> firstBinding r1 ss c = firstBinding r2 ss c"
  by (induction ss) (simp_all split: option.splits)

lemma findCommandHandler_states:
  "findCommandHandler (r\<lparr>states := st\<rparr>) x c = findCommandHandler r x c"
proof -
  have "\<forall>s \<in> set (chain x). binding (r\<lparr>states := st\<rparr>) s c = binding r s c"
    by (simp add: binding_def)
  then show ?thesis
    unfolding findCommandHandler_firstBinding by (simp only: firstBinding_cong)
qed

lemma RegisterCommand_binding:
  assumes "RegisterCommand r (Some a) d h = Returns r'"
  shows "binding r' t c =
    (if name t = name a \<and> c = Name d then Some \<lparr>Def = d, Handler = h\<rparr> else binding r t c)"
proof -
  from assms have ch: "commandHandlers r' = (commandHandlers r)(name a \<mapsto>
      AList.update (Name d) \<lparr>Def = d, Handler = h\<rparr>
        (case commandHandlers r (name a) of None \<Rightarrow> [] | Some hs \<Rightarrow> hs))"
    using RegisterCommand_Returns by blast
  show ?thesis
    unfolding binding_def ch
    by (cases "commandHandlers r (name a)") (simp_all add: update_conv')
qed

text \<open>
  Claim C10. \<open>RegisterCommand\<close> writes the command table only, under the state's name,
  and leaves the state set as it is; \<open>findCommandHandler\<close> reads the command table and
  the parent links only. So after a handler is bound at a state of the parent chain of
  \<open>s\<close>, lookup from \<open>s\<close> finds a handler for the name, and it is the handler just bound
  unless a state before it in the chain has a binding of the same name; every lookup gives
  the same result for every content of the state set, the empty one included.
\<close>

theorem dispatch_without_RegisterState:
  "RegisterCommand r (Some a) d h = Returns r' \<Longrightarrow> a \<in> set (chain (Some s)) \<Longrightarrow>
   states r' = states r \<and>
   findCommandHandler r' (Some s) (Name d) \<noteq> None \<and>
   ((\<forall>t \<in> set (takeWhile (\<lambda>t. name t \<noteq> name a) (chain (Some s))).
        binding r t (Name d) = None) \<longrightarrow>
      findCommandHandler r' (Some s) (Name d) = Some h) \<and>
   (\<forall>st x c. findCommandHandler (r'\<lparr>states := st\<rparr>) x c = findCommandHandler r' x c)"
proof (intro conjI impI allI)
  assume reg: "RegisterCommand r (Some a) d h = Returns r'"
    and a: "a \<in> set (chain (Some s))"
  show "states r' = states r"
    using reg RegisterCommand_Returns by blast
  have ba: "binding r' a (Name d) = Some \<lparr>Def = d, Handler = h\<rparr>"
    by (simp add: RegisterCommand_binding [OF reg])
  show "findCommandHandler r' (Some s) (Name d) \<noteq> None"
  proof
    assume "findCommandHandler r' (Some s) (Name d) = None"
    then have "\<forall>t \<in> set (chain (Some s)). binding r' t (Name d) = None"
      by (simp only: findCommandHandler_firstBinding firstBinding_None option.map_disc_iff)
    with a ba show False by auto
  qed
  show "findCommandHandler (r'\<lparr>states := st\<rparr>) x c = findCommandHandler r' x c" for st x c
    by (rule findCommandHandler_states)
  assume free: "\<forall>t \<in> set (takeWhile (\<lambda>t. name t \<noteq> name a) (chain (Some s))).
      binding r t (Name d) = None"
  let ?P = "\<lambda>t. name t \<noteq> name a"
  let ?pre = "takeWhile ?P (chain (Some s))"
  from a have ne: "dropWhile ?P (chain (Some s)) \<noteq> []"
    by auto
  then obtain b post where dw: "dropWhile ?P (chain (Some s)) = b # post"
    by (cases "dropWhile ?P (chain (Some s))") auto
  then have nb: "name b = name a"
    using hd_dropWhile [OF ne] by simp
  have split: "chain (Some s) = ?pre @ b # post"
    using takeWhile_dropWhile_id [of ?P "chain (Some s)"] dw by simp
  have pre: "\<forall>t \<in> set ?pre. binding r' t (Name d) = None"
  proof
    fix t assume t: "t \<in> set ?pre"
    then have "name t \<noteq> name a" by (rule set_takeWhileD [THEN conjunct2])
    with free t show "binding r' t (Name d) = None"
      by (simp add: RegisterCommand_binding [OF reg])
  qed
  have "binding r' b (Name d) = Some \<lparr>Def = d, Handler = h\<rparr>"
    using nb by (simp add: RegisterCommand_binding [OF reg])
  with split pre have "firstBinding r' (chain (Some s)) (Name d) = Some \<lparr>Def = d, Handler = h\<rparr>"
    by (rule firstBinding_prefix)
  then show "findCommandHandler r' (Some s) (Name d) = Some h"
    by (simp add: findCommandHandler_firstBinding del: findCommandHandler.simps)
qed

theorem dispatch_without_RegisterState_witness:
  "RegisterCommand (NewRegistry :: (nat, unit) Registry) (Some RootState) helloDef hello =
     Returns \<lparr>states = Map.empty,
              commandHandlers = [''Root'' \<mapsto> [(''hello'', \<lparr>Def = helloDef, Handler = hello\<rparr>)]]\<rparr> \<and>
   findCommandHandler
     \<lparr>states = Map.empty,
      commandHandlers = [''Root'' \<mapsto> [(''hello'', \<lparr>Def = helloDef, Handler = hello\<rparr>)]]\<rparr>
     (Some ReadyState) ''hello'' = Some hello"
  using dispatch_without_RegisterState
          [of "NewRegistry :: (nat, unit) Registry" RootState helloDef hello
              "\<lparr>states = Map.empty,
                commandHandlers = [''Root'' \<mapsto> [(''hello'', \<lparr>Def = helloDef, Handler = hello\<rparr>)]]\<rparr>"
              ReadyState]
  by (simp add: RegisterCommand_def NewRegistry_def Let_def RootState_def ReadyState_def
        helloDef_def binding_def)

subsection \<open>Listing the available commands\<close>

lemma fold_collectStep:
  "fold collectStep es (seen, cmds) =
     (seen \<union> fst ` set es, cmds @ map (\<lambda>e. Def (snd e)) (firsts seen es))"
proof (induction es arbitrary: seen cmds)
  case Nil
  show ?case by simp
next
  case (Cons e es)
  obtain k v where e: "e = (k, v)" by (cases e)
  show ?case
    unfolding e by (cases "k \<in> seen") (auto simp add: Cons.IH)
qed

lemma collectCommands_entries:
  "collectCommands r st acc = fold collectStep (entries r st) acc"
  by (induction r st acc rule: collectCommands.induct)
     (simp_all add: entries_def split: option.splits)

lemma set_firsts:
  "set (firsts seen es) = {(k, v). k \<notin> seen \<and> map_of es k = Some v}"
proof (induction seen es rule: firsts.induct)
  case (1 seen)
  show ?case by simp
next
  case (2 seen k v es)
  show ?case
  proof (cases "k \<in> seen")
    case True
    with 2 show ?thesis by (auto split: if_splits)
  next
    case False
    with 2 have "set (firsts (insert k seen) es) =
        {(k', v'). k' \<notin> insert k seen \<and> map_of es k' = Some v'}"
      by simp
    with False show ?thesis by (auto split: if_splits)
  qed
qed

lemma distinct_firsts: "distinct (map fst (firsts seen es))"
proof (induction seen es rule: firsts.induct)
  case (1 seen)
  show ?case by simp
next
  case (2 seen k v es)
  show ?case
  proof (cases "k \<in> seen")
    case True
    with 2 show ?thesis by simp
  next
    case False
    have "k \<notin> fst ` set (firsts (insert k seen) es)"
      unfolding set_firsts by auto
    with False 2 show ?thesis by simp
  qed
qed

lemma map_of_entries: "map_of (entries r st) c = firstBinding r (chain st) c"
proof (induction st rule: chain.induct)
  case 1
  show ?case by (simp add: entries_def)
next
  case (2 n p)
  have "entries r (Some (State n p)) =
      (case commandHandlers r n of None \<Rightarrow> [] | Some hs \<Rightarrow> hs) @ entries r p"
    by (simp add: entries_def)
  then show ?case
    using 2 by (simp add: map_add_def binding_def split: option.splits)
qed

lemma built_binding_Name: "built r \<Longrightarrow> binding r s c = Some rc \<Longrightarrow> Name (Def rc) = c"
proof (induction arbitrary: s c rc rule: built.induct)
  case built_New
  then show ?case by (simp add: binding_def NewRegistry_def)
next
  case (built_State r st)
  from built_State.prems have "binding r s c = Some rc" by (simp add: binding_def)
  then show ?case by (rule built_State.IH)
next
  case (built_Command r st d h r')
  from built_Command.hyps(2) obtain a where st: "st = Some a"
    using RegisterCommand_cases by blast
  have b: "binding r' s c =
      (if name s = name a \<and> c = Name d then Some \<lparr>Def = d, Handler = h\<rparr> else binding r s c)"
    using built_Command.hyps(2) unfolding st by (rule RegisterCommand_binding)
  show ?case
  proof (cases "name s = name a \<and> c = Name d")
    case True
    with b built_Command.prems show ?thesis by auto
  next
    case False
    with b built_Command.prems have "binding r s c = Some rc" by simp
    then show ?thesis by (rule built_Command.IH)
  qed
qed

lemma firstBinding_Name:
  assumes "built r" and "firstBinding r ss c = Some rc"
  shows "Name (Def rc) = c"
proof -
  from assms(2) obtain s where "binding r s c = Some rc"
    using firstBinding_Some by blast
  with assms(1) show ?thesis by (rule built_binding_Name)
qed

lemma distinct_map_insort_key:
  "distinct (map f (insort_key f x xs)) = (f x \<notin> f ` set xs \<and> distinct (map f xs))"
  by (induction xs) (auto simp add: set_insort_key)

lemma distinct_map_sort_key: "distinct (map f (sort_key f xs)) = distinct (map f xs)"
  by (induction xs) (simp_all add: distinct_map_insort_key)

lemma FindAvailableCommands_eq:
  "FindAvailableCommands r st =
     sort_key Name (map (\<lambda>e. Def (snd e)) (firsts {} (entries r st)))"
  by (simp add: FindAvailableCommands_def collectCommands_entries fold_collectStep)

lemma listed_names:
  assumes "built r"
  shows "map Name (map (\<lambda>e. Def (snd e)) (firsts {} (entries r st))) =
         map fst (firsts {} (entries r st))"
proof -
  have "Name (Def (snd e)) = fst e" if "e \<in> set (firsts {} (entries r st))" for e
  proof -
    obtain k v where e: "e = (k, v)" by (cases e)
    with that have "map_of (entries r st) k = Some v"
      by (simp add: set_firsts)
    then have "firstBinding r (chain st) k = Some v"
      by (simp only: map_of_entries)
    with assms have "Name (Def v) = k" by (rule firstBinding_Name)
    with e show ?thesis by simp
  qed
  then show ?thesis by simp
qed

lemma set_FindAvailableCommands:
  assumes "built r"
  shows "d \<in> set (FindAvailableCommands r st) \<longleftrightarrow>
         (\<exists>rc. firstBinding r (chain st) (Name d) = Some rc \<and> Def rc = d)"
proof
  assume "d \<in> set (FindAvailableCommands r st)"
  then obtain k v where kv: "(k, v) \<in> set (firsts {} (entries r st))" and d: "Def v = d"
    by (auto simp add: FindAvailableCommands_eq)
  from kv have fb: "firstBinding r (chain st) k = Some v"
    by (simp add: set_firsts map_of_entries)
  with assms have "Name (Def v) = k" by (rule firstBinding_Name)
  with fb d show "\<exists>rc. firstBinding r (chain st) (Name d) = Some rc \<and> Def rc = d"
    by auto
next
  assume "\<exists>rc. firstBinding r (chain st) (Name d) = Some rc \<and> Def rc = d"
  then obtain rc where fb: "firstBinding r (chain st) (Name d) = Some rc" and d: "Def rc = d"
    by blast
  then have "(Name d, rc) \<in> set (firsts {} (entries r st))"
    by (simp add: set_firsts map_of_entries)
  then have "Def (snd (Name d, rc)) \<in> (\<lambda>e. Def (snd e)) ` set (firsts {} (entries r st))"
    by (rule imageI)
  with d show "d \<in> set (FindAvailableCommands r st)"
    by (simp add: FindAvailableCommands_eq)
qed

lemma sorted_distinct_key_unique:
  assumes "sorted (map f xs)" "distinct (map f xs)" "sorted (map f ys)" "distinct (map f ys)"
    and "set xs = set ys"
  shows "xs = ys"
proof -
  from assms(5) have "set (map f xs) = set (map f ys)" by simp
  with assms(1-4) have m: "map f xs = map f ys" by (rule sorted_distinct_set_unique)
  from assms(2) have "inj_on f (set xs)" by (simp add: distinct_map)
  with assms(5) have "inj_on f (set xs \<union> set ys)" by simp
  with m show ?thesis by (simp add: inj_on_map_eq_map)
qed


text \<open>
  Claim C7. For a registry made by the package and every state, the list that
  \<open>FindAvailableCommands\<close> returns has no two entries of the same name, is sorted
  ascending by name (bytewise lexicographic, as Go orders strings), and holds exactly, for
  every command name bound somewhere along the parent chain, the definition of the first
  state of the chain that binds it; these are the names for which \<open>findCommandHandler\<close>
  finds a handler. The list depends on the bindings only: two registries with the same
  bindings return the same list, in whatever order the commands were registered and in
  whatever order the command tables are traversed.
\<close>

theorem FindAvailableCommands_sorted_closest:
  "built r \<Longrightarrow>
   distinct (map Name (FindAvailableCommands r st)) \<and>
   sorted (map Name (FindAvailableCommands r st)) \<and>
   (\<forall>d. d \<in> set (FindAvailableCommands r st) \<longleftrightarrow>
        (\<exists>rc. firstBinding r (chain st) (Name d) = Some rc \<and> Def rc = d)) \<and>
   (\<forall>c. (\<exists>d \<in> set (FindAvailableCommands r st). Name d = c) \<longleftrightarrow>
        findCommandHandler r st c \<noteq> None) \<and>
   (\<forall>r'. built r' \<and> (\<forall>s c. binding r' s c = binding r s c) \<longrightarrow>
        FindAvailableCommands r' st = FindAvailableCommands r st)"
proof (intro conjI allI impI)
  assume b: "built r"
  show dist: "distinct (map Name (FindAvailableCommands r st))"
    unfolding FindAvailableCommands_eq distinct_map_sort_key listed_names [OF b]
    by (rule distinct_firsts)
  show srt: "sorted (map Name (FindAvailableCommands r st))"
    unfolding FindAvailableCommands_eq by (rule sorted_sort_key)
  show "d \<in> set (FindAvailableCommands r st) \<longleftrightarrow>
      (\<exists>rc. firstBinding r (chain st) (Name d) = Some rc \<and> Def rc = d)" for d
    using b by (rule set_FindAvailableCommands)
  show "(\<exists>d \<in> set (FindAvailableCommands r st). Name d = c) \<longleftrightarrow>
      findCommandHandler r st c \<noteq> None" for c
  proof
    assume "\<exists>d \<in> set (FindAvailableCommands r st). Name d = c"
    then obtain d where "d \<in> set (FindAvailableCommands r st)" and c: "Name d = c"
      by blast
    then obtain rc where "firstBinding r (chain st) (Name d) = Some rc"
      using set_FindAvailableCommands [OF b] by blast
    with c show "findCommandHandler r st c \<noteq> None"
      by (simp add: findCommandHandler_firstBinding)
  next
    assume "findCommandHandler r st c \<noteq> None"
    then obtain rc where fb: "firstBinding r (chain st) c = Some rc"
      by (auto simp add: findCommandHandler_firstBinding)
    with b have n: "Name (Def rc) = c" by (rule firstBinding_Name)
    with fb have "Def rc \<in> set (FindAvailableCommands r st)"
      using set_FindAvailableCommands [OF b, of "Def rc" st] by auto
    with n show "\<exists>d \<in> set (FindAvailableCommands r st). Name d = c" by blast
  qed
  fix r' :: "('a, 'b) Registry"
  assume r': "built r' \<and> (\<forall>s c. binding r' s c = binding r s c)"
  then have b': "built r'" and same: "\<And>s c. binding r' s c = binding r s c"
    by simp_all
  have fb: "firstBinding r' ss c = firstBinding r ss c" for ss c
    by (rule firstBinding_cong) (simp add: same)
  have "set (FindAvailableCommands r' st) = set (FindAvailableCommands r st)"
    using set_FindAvailableCommands [OF b'] set_FindAvailableCommands [OF b]
    by (auto simp add: fb)
  moreover have "distinct (map Name (FindAvailableCommands r' st))"
    unfolding FindAvailableCommands_eq distinct_map_sort_key listed_names [OF b']
    by (rule distinct_firsts)
  moreover have "sorted (map Name (FindAvailableCommands r' st))"
    unfolding FindAvailableCommands_eq by (rule sorted_sort_key)
  ultimately show "FindAvailableCommands r' st = FindAvailableCommands r st"
    using dist srt by (intro sorted_distinct_key_unique [where f = Name])
qed

theorem FindAvailableCommands_sorted_closest_witness:
  "FindAvailableCommands counterRegistry (Some ReadyState) =
     [\<lparr>Name = ''break'', Args = '''', Description = ''''\<rparr>,
      \<lparr>Name = ''hello'', Args = ''<who>'', Description = ''greets someone''\<rparr>,
      \<lparr>Name = ''inc'', Args = '''', Description = ''''\<rparr>,
      \<lparr>Name = ''leave'', Args = '''', Description = ''''\<rparr>,
      \<lparr>Name = ''stay'', Args = '''', Description = ''''\<rparr>] \<and>
   FindAvailableCommands counterRegistry (Some RootState) =
     [\<lparr>Name = ''break'', Args = '''', Description = ''''\<rparr>, helloDef]"
  using FindAvailableCommands_sorted_closest [OF built_counterRegistry, of "Some ReadyState"]
        FindAvailableCommands_sorted_closest [OF built_counterRegistry, of "Some RootState"]
  by (simp add: FindAvailableCommands_def counterRegistry_def ReadyState_def RootState_def
        helloDef_def)

subsection \<open>Registering states\<close>

lemma RegisterState_known: "states r (name s) \<noteq> None \<Longrightarrow> RegisterState r (Some s) = r"
  by (cases s) simp

lemma RegisterState_fresh:
  "states r (name s) = None \<Longrightarrow>
   RegisterState r (Some s) = RegisterState (r\<lparr>states := (states r)(name s \<mapsto> s)\<rparr>) (parent s)"
  by (cases s) simp

lemma RegisterState_keeps:
  "states r k = Some v \<Longrightarrow> states (RegisterState r st) k = Some v"
proof (induction r st rule: RegisterState.induct)
  case (1 r)
  then show ?case by simp
next
  case (2 r n p)
  show ?case
  proof (cases "states r n")
    case (Some t)
    with "2.prems" show ?thesis by simp
  next
    case None
    with "2.prems" have "k \<noteq> n" by auto
    with "2.prems" have "states (r\<lparr>states := (states r)(n \<mapsto> State n p)\<rparr>) k = Some v"
      by simp
    with "2.IH" None have
      "states (RegisterState (r\<lparr>states := (states r)(n \<mapsto> State n p)\<rparr>) p) k = Some v"
      by simp
    with None show ?thesis by simp
  qed
qed

lemma RegisterState_adds:
  "states (RegisterState r st) k = Some v \<Longrightarrow> states r k = None \<Longrightarrow>
   v \<in> set (chain st) \<and> name v = k"
proof (induction r st rule: RegisterState.induct)
  case (1 r)
  then show ?case by simp
next
  case (2 r n p)
  show ?case
  proof (cases "states r n")
    case (Some t)
    with "2.prems" show ?thesis by simp
  next
    case None
    let ?r' = "r\<lparr>states := (states r)(n \<mapsto> State n p)\<rparr>"
    from None "2.prems"(1) have v: "states (RegisterState ?r' p) k = Some v" by simp
    show ?thesis
    proof (cases "k = n")
      case True
      have "states ?r' n = Some (State n p)" by simp
      then have "states (RegisterState ?r' p) n = Some (State n p)"
        by (rule RegisterState_keeps)
      with v True have "v = State n p" by simp
      with True show ?thesis by simp
    next
      case False
      with "2.prems"(2) have "states ?r' k = None" by simp
      with "2.IH" None v have "v \<in> set (chain p) \<and> name v = k" by simp
      then show ?thesis by simp
    qed
  qed
qed

lemma RegisterState_self: "states (RegisterState r (Some s)) (name s) \<noteq> None"
proof (cases "states r (name s)")
  case None
  have "states (r\<lparr>states := (states r)(name s \<mapsto> s)\<rparr>) (name s) = Some s" by simp
  then have "states (RegisterState (r\<lparr>states := (states r)(name s \<mapsto> s)\<rparr>) (parent s)) (name s)
      = Some s"
    by (rule RegisterState_keeps)
  with None show ?thesis by (simp add: RegisterState_fresh)
next
  case (Some t)
  then show ?thesis by (simp add: RegisterState_known)
qed

lemma ran_RegisterState: "ran (states (RegisterState r st)) \<subseteq> ran (states r) \<union> set (chain st)"
proof
  fix v assume "v \<in> ran (states (RegisterState r st))"
  then obtain k where k: "states (RegisterState r st) k = Some v"
    by (auto simp add: ran_def)
  show "v \<in> ran (states r) \<union> set (chain st)"
  proof (cases "states r k")
    case None
    with k show ?thesis using RegisterState_adds by blast
  next
    case (Some w)
    then have "states (RegisterState r st) k = Some w" by (rule RegisterState_keeps)
    with k Some show ?thesis by (auto simp add: ran_def)
  qed
qed

lemma chain_not_longer: "chain (Some s) = pre @ chain (Some s) \<Longrightarrow> pre = []"
proof -
  assume "chain (Some s) = pre @ chain (Some s)"
  then have "length (chain (Some s)) = length (pre @ chain (Some s))" by simp
  then show "pre = []" by simp
qed


lemma RegisterState_closed_aux:
  assumes "\<forall>k x. states r k = Some x \<longrightarrow> name x = k"
    and "inj_on name (ran (states r) \<union> set (chain st))"
    and "\<forall>k x. states r k = Some x \<longrightarrow>
        (\<forall>a \<in> set (chain (Some x)). states r (name a) = Some a) \<or>
        (\<exists>pre. pre \<noteq> [] \<and> chain (Some x) = pre @ chain st \<and>
           (\<forall>a \<in> set pre. states r (name a) = Some a))"
  shows "closed (RegisterState r st)"
  using assms
proof (induction r st rule: RegisterState.induct)
  case (1 r)
  show ?case
    unfolding closed_def
  proof (intro allI impI conjI)
    fix k s assume "states (RegisterState r None) k = Some s"
    then have s: "states r k = Some s" by simp
    with "1.prems"(1) show "name s = k" by blast
    from s "1.prems"(3) have "(\<forall>a \<in> set (chain (Some s)). states r (name a) = Some a) \<or>
        (\<exists>pre. pre \<noteq> [] \<and> chain (Some s) = pre @ chain None \<and>
           (\<forall>a \<in> set pre. states r (name a) = Some a))"
      by blast
    then have "\<forall>a \<in> set (chain (Some s)). states r (name a) = Some a"
      by auto
    then show "\<forall>a \<in> set (chain (Some s)). states (RegisterState r None) (name a) = Some a"
      by simp
  qed
next
  case (2 r n p)
  let ?s = "State n p"
  show ?case
  proof (cases "states r n")
    case (Some t)
    then have res: "RegisterState r (Some ?s) = r" by simp
    from Some "2.prems"(1) have "name t = n" by blast
    moreover from Some have "t \<in> ran (states r)" by (auto simp add: ran_def)
    ultimately have "t = ?s"
      using "2.prems"(2) by (auto simp add: inj_on_def)
    with Some have stored: "states r n = Some ?s" by simp
    have complete_s: "\<forall>a \<in> set (chain (Some ?s)). states r (name a) = Some a"
    proof -
      from stored "2.prems"(3) have "(\<forall>a \<in> set (chain (Some ?s)). states r (name a) = Some a) \<or>
          (\<exists>pre. pre \<noteq> [] \<and> chain (Some ?s) = pre @ chain (Some ?s) \<and>
             (\<forall>a \<in> set pre. states r (name a) = Some a))"
        by blast
      then show ?thesis using chain_not_longer by blast
    qed
    show ?thesis
      unfolding res closed_def
    proof (intro allI impI conjI)
      fix k x assume x: "states r k = Some x"
      with "2.prems"(1) show "name x = k" by blast
      from x "2.prems"(3) have "(\<forall>a \<in> set (chain (Some x)). states r (name a) = Some a) \<or>
          (\<exists>pre. pre \<noteq> [] \<and> chain (Some x) = pre @ chain (Some ?s) \<and>
             (\<forall>a \<in> set pre. states r (name a) = Some a))"
        by blast
      then show "\<forall>a \<in> set (chain (Some x)). states r (name a) = Some a"
      proof
        assume "\<forall>a \<in> set (chain (Some x)). states r (name a) = Some a"
        then show ?thesis .
      next
        assume "\<exists>pre. pre \<noteq> [] \<and> chain (Some x) = pre @ chain (Some ?s) \<and>
             (\<forall>a \<in> set pre. states r (name a) = Some a)"
        then obtain pre where "chain (Some x) = pre @ chain (Some ?s)"
          and "\<forall>a \<in> set pre. states r (name a) = Some a"
          by blast
        with complete_s show ?thesis by auto
      qed
    qed
  next
    case None
    let ?r' = "r\<lparr>states := (states r)(n \<mapsto> ?s)\<rparr>"
    have res: "RegisterState r (Some ?s) = RegisterState ?r' p"
      using None by simp
    have keep: "states ?r' (name a) = Some a" if "states r (name a) = Some a" for a
    proof -
      from that None have "name a \<noteq> n" by auto
      with that show ?thesis by simp
    qed
    have keyed': "\<forall>k x. states ?r' k = Some x \<longrightarrow> name x = k"
    proof (intro allI impI)
      fix k x assume a: "states ?r' k = Some x"
      show "name x = k"
      proof (cases "k = n")
        case True
        with a have "x = ?s" by simp
        with True show ?thesis by simp
      next
        case False
        with a have "states r k = Some x" by simp
        with "2.prems"(1) show ?thesis by blast
      qed
    qed
    have "ran (states ?r') \<subseteq> insert ?s (ran (states r))"
      by (auto simp add: ran_def split: if_splits)
    then have "ran (states ?r') \<union> set (chain p) \<subseteq> ran (states r) \<union> set (chain (Some ?s))"
      by auto
    with "2.prems"(2) have inj': "inj_on name (ran (states ?r') \<union> set (chain p))"
      by (rule inj_on_subset)
    have pend': "\<forall>k x. states ?r' k = Some x \<longrightarrow>
        (\<forall>a \<in> set (chain (Some x)). states ?r' (name a) = Some a) \<or>
        (\<exists>pre. pre \<noteq> [] \<and> chain (Some x) = pre @ chain p \<and>
           (\<forall>a \<in> set pre. states ?r' (name a) = Some a))"
    proof (intro allI impI)
      fix k x assume a: "states ?r' k = Some x"
      show "(\<forall>a \<in> set (chain (Some x)). states ?r' (name a) = Some a) \<or>
        (\<exists>pre. pre \<noteq> [] \<and> chain (Some x) = pre @ chain p \<and>
           (\<forall>a \<in> set pre. states ?r' (name a) = Some a))"
      proof (cases "k = n")
        case True
        with a have x: "x = ?s" by simp
        have "[?s] \<noteq> [] \<and> chain (Some ?s) = [?s] @ chain p \<and>
            (\<forall>a \<in> set [?s]. states ?r' (name a) = Some a)"
          by simp
        then show ?thesis unfolding x by blast
      next
        case False
        with a have xr: "states r k = Some x" by simp
        with "2.prems"(3) have "(\<forall>a \<in> set (chain (Some x)). states r (name a) = Some a) \<or>
            (\<exists>pre. pre \<noteq> [] \<and> chain (Some x) = pre @ chain (Some ?s) \<and>
               (\<forall>a \<in> set pre. states r (name a) = Some a))"
          by blast
        then show ?thesis
        proof
          assume "\<forall>a \<in> set (chain (Some x)). states r (name a) = Some a"
          then have "\<forall>a \<in> set (chain (Some x)). states ?r' (name a) = Some a"
            using keep by blast
          then show ?thesis by blast
        next
          assume "\<exists>pre. pre \<noteq> [] \<and> chain (Some x) = pre @ chain (Some ?s) \<and>
               (\<forall>a \<in> set pre. states r (name a) = Some a)"
          then obtain pre where c: "chain (Some x) = pre @ chain (Some ?s)"
            and st: "\<forall>a \<in> set pre. states r (name a) = Some a"
            by blast
          from st have "\<forall>a \<in> set pre. states ?r' (name a) = Some a"
            using keep by blast
          then have "\<forall>a \<in> set (pre @ [?s]). states ?r' (name a) = Some a"
            by simp
          moreover from c have "chain (Some x) = (pre @ [?s]) @ chain p" by simp
          moreover have "pre @ [?s] \<noteq> []" by simp
          ultimately show ?thesis by blast
        qed
      qed
    qed
    from "2.IH" [OF _ keyed' inj' pend'] None have "closed (RegisterState ?r' p)"
      by simp
    then show ?thesis unfolding res .
  qed
qed

lemma closed_keyed: "closed r \<Longrightarrow> states r k = Some x \<Longrightarrow> name x = k"
  unfolding closed_def by blast

lemma closed_stored:
  "closed r \<Longrightarrow> states r k = Some x \<Longrightarrow> a \<in> set (chain (Some x)) \<Longrightarrow> states r (name a) = Some a"
  unfolding closed_def by blast

lemma RegisterState_closed:
  assumes c: "closed r" and inj: "inj_on name (ran (states r) \<union> set (chain st))"
  shows "closed (RegisterState r st)"
proof (rule RegisterState_closed_aux [OF _ inj])
  show "\<forall>k x. states r k = Some x \<longrightarrow> name x = k"
    using c closed_keyed by blast
  show "\<forall>k x. states r k = Some x \<longrightarrow>
        (\<forall>a \<in> set (chain (Some x)). states r (name a) = Some a) \<or>
        (\<exists>pre. pre \<noteq> [] \<and> chain (Some x) = pre @ chain st \<and>
           (\<forall>a \<in> set pre. states r (name a) = Some a))"
    using c closed_stored by blast
qed

lemma RegisterState_stores_chain:
  assumes c: "closed r" and inj: "inj_on name (ran (states r) \<union> set (chain st))"
    and a: "a \<in> set (chain st)"
  shows "states (RegisterState r st) (name a) = Some a"
proof -
  from a obtain s where st: "st = Some s" by (cases st) auto
  let ?r' = "RegisterState r st"
  have c': "closed ?r'" using c inj by (rule RegisterState_closed)
  obtain t where t: "states ?r' (name s) = Some t"
    using RegisterState_self [of r s] st by auto
  with c' have nt: "name t = name s" by (rule closed_keyed)
  from t have "t \<in> ran (states ?r')" by (auto simp add: ran_def)
  then have "t \<in> ran (states r) \<union> set (chain st)"
    using ran_RegisterState by blast
  moreover have "s \<in> ran (states r) \<union> set (chain st)"
    unfolding st by (simp add: chain_Some)
  ultimately have "t = s" using inj nt by (auto simp add: inj_on_def)
  with t have "states ?r' (name s) = Some s" by simp
  with c' show ?thesis using a unfolding st by (rule closed_stored)
qed


lemma closed_NewRegistry: "closed NewRegistry"
  by (simp add: closed_def NewRegistry_def)

lemma builtFrom_closed:
  assumes "inj_on name U" and "builtFrom U r"
  shows "closed r \<and> ran (states r) \<subseteq> U"
  using assms(2)
proof (induction rule: builtFrom.induct)
  case builtFrom_New
  show ?case by (simp add: closed_NewRegistry) (simp add: NewRegistry_def)
next
  case (builtFrom_State r st)
  from builtFrom_State.IH builtFrom_State.hyps(2)
  have sub: "ran (states r) \<union> set (chain st) \<subseteq> U" by simp
  with assms(1) have inj: "inj_on name (ran (states r) \<union> set (chain st))"
    by (rule inj_on_subset)
  from builtFrom_State.IH have "closed r" by simp
  then have "closed (RegisterState r st)" using inj by (rule RegisterState_closed)
  moreover have "ran (states (RegisterState r st)) \<subseteq> U"
    using ran_RegisterState [of r st] sub by blast
  ultimately show ?case by simp
next
  case (builtFrom_Command r st d h r')
  from builtFrom_Command.hyps(2) obtain a where "st = Some a"
    using RegisterCommand_cases by blast
  with builtFrom_Command.hyps(2) have "states r' = states r"
    using RegisterCommand_Returns by blast
  with builtFrom_Command.IH show ?case by (simp add: closed_def)
qed

text \<open>
  Claim C8. In the data model a name is the identity key of its state: no name is shared
  by two different states. Registering nil changes nothing, and so does registering a state
  whose name is already a key. Registering a state with a new name stores it under its
  name and goes on with its parent, so the walk up the parent chain ends at the first
  name that is already a key. \<open>RegisterState\<close> never touches the command table, keeps
  every entry of the state set, and adds only states of the chain, each under its own
  name. With unique names (among the stored states and the chain being registered), a
  state set that is closed under ancestors stays closed, and afterwards the state and every
  ancestor of it are stored. So in every registry made by the package from states with
  unique names, every ancestor of every stored state is stored.
\<close>

theorem RegisterState_ancestors:
  "RegisterState r None = r \<and>
   (\<forall>s. states r (name s) \<noteq> None \<longrightarrow> RegisterState r (Some s) = r) \<and>
   (\<forall>s. states r (name s) = None \<longrightarrow>
      RegisterState r (Some s) =
        RegisterState (r\<lparr>states := (states r)(name s \<mapsto> s)\<rparr>) (parent s)) \<and>
   commandHandlers (RegisterState r st) = commandHandlers r \<and>
   (\<forall>k v. states r k = Some v \<longrightarrow> states (RegisterState r st) k = Some v) \<and>
   (\<forall>k v. states (RegisterState r st) k = Some v \<and> states r k = None \<longrightarrow>
      v \<in> set (chain st) \<and> name v = k) \<and>
   (closed r \<and> inj_on name (ran (states r) \<union> set (chain st)) \<longrightarrow>
      closed (RegisterState r st) \<and>
      (\<forall>a \<in> set (chain st). states (RegisterState r st) (name a) = Some a)) \<and>
   (inj_on name U \<and> builtFrom U r \<longrightarrow>
      closed r \<and>
      (\<forall>k s a. states r k = Some s \<and> a \<in> set (chain (Some s)) \<longrightarrow>
         states r (name a) = Some a))"
proof (intro conjI allI impI ballI)
  show "RegisterState r None = r" by simp
  show "commandHandlers (RegisterState r st) = commandHandlers r" by simp
  show "RegisterState r (Some s) = r" if "states r (name s) \<noteq> None" for s
    using that by (rule RegisterState_known)
  show "RegisterState r (Some s) =
      RegisterState (r\<lparr>states := (states r)(name s \<mapsto> s)\<rparr>) (parent s)"
    if "states r (name s) = None" for s
    using that by (rule RegisterState_fresh)
  show "states (RegisterState r st) k = Some v" if "states r k = Some v" for k v
    using that by (rule RegisterState_keeps)
  show "v \<in> set (chain st)" if "states (RegisterState r st) k = Some v \<and> states r k = None" for k v
    using that RegisterState_adds by blast
  show "name v = k" if "states (RegisterState r st) k = Some v \<and> states r k = None" for k v
    using that RegisterState_adds by blast
  show "closed (RegisterState r st)"
    if "closed r \<and> inj_on name (ran (states r) \<union> set (chain st))"
    using that RegisterState_closed by blast
  show "states (RegisterState r st) (name a) = Some a"
    if "closed r \<and> inj_on name (ran (states r) \<union> set (chain st))" and "a \<in> set (chain st)" for a
    using that RegisterState_stores_chain by blast
  show "closed r" if "inj_on name U \<and> builtFrom U r"
    using that builtFrom_closed by blast
  show "states r (name a) = Some a"
    if "inj_on name U \<and> builtFrom U r" and "states r k = Some s \<and> a \<in> set (chain (Some s))"
    for k s a
  proof -
    from that(1) have "closed r" using builtFrom_closed by blast
    with that(2) show ?thesis using closed_stored by blast
  qed
qed

theorem RegisterState_ancestors_witness:
  "inj_on name (ran (states (NewRegistry :: (nat, unit) Registry)) \<union> set (chain (Some ReadyState))) \<and>
   closed (RegisterState (NewRegistry :: (nat, unit) Registry) (Some ReadyState)) \<and>
   states (RegisterState (NewRegistry :: (nat, unit) Registry) (Some ReadyState)) ''Ready'' =
     Some ReadyState \<and>
   states (RegisterState (NewRegistry :: (nat, unit) Registry) (Some ReadyState)) ''Root'' =
     Some RootState \<and>
   RegisterState (RegisterState (NewRegistry :: (nat, unit) Registry) (Some ReadyState))
     (Some RootState) =
     RegisterState (NewRegistry :: (nat, unit) Registry) (Some ReadyState)"
proof -
  have "set (chain (Some ReadyState)) \<subseteq> {ReadyState, RootState}"
    by (simp add: ReadyState_def RootState_def)
  then have b: "builtFrom {ReadyState, RootState}
      (RegisterState (NewRegistry :: (nat, unit) Registry) (Some ReadyState))"
    by (rule builtFrom_State [OF builtFrom_New])
  have i: "inj_on name {ReadyState, RootState}"
    by (simp add: ReadyState_def RootState_def)
  show ?thesis
    using RegisterState_ancestors
            [of "NewRegistry :: (nat, unit) Registry" "Some ReadyState" "{ReadyState, RootState}"]
          RegisterState_ancestors
            [of "RegisterState (NewRegistry :: (nat, unit) Registry) (Some ReadyState)"
                "Some RootState" "{ReadyState, RootState}"]
          b i
    by (simp add: NewRegistry_def ReadyState_def RootState_def)
qed

text \<open>
  The uniqueness of names is used: were a name shared by two different states, a root named
  \<open>P\<close> and another state named \<open>P\<close> with parent \<open>G\<close>, then registering the root and
  afterwards a state \<open>S\<close> below the other \<open>P\<close> would end the walk at the known name and
  leave \<open>G\<close> out.
\<close>

lemma RegisterState_shared_name:
  "states
     (RegisterState (RegisterState (NewRegistry :: (nat, unit) Registry) (Some (State ''P'' None)))
        (Some (State ''S'' (Some (State ''P'' (Some (State ''G'' None)))))))
     ''S'' = Some (State ''S'' (Some (State ''P'' (Some (State ''G'' None))))) \<and>
   State ''G'' None \<in> set (chain (Some (State ''S'' (Some (State ''P'' (Some (State ''G'' None))))))) \<and>
   states
     (RegisterState (RegisterState (NewRegistry :: (nat, unit) Registry) (Some (State ''P'' None)))
        (Some (State ''S'' (Some (State ''P'' (Some (State ''G'' None)))))))
     ''G'' = None"
  by (simp add: NewRegistry_def)

end
